theory Spec2Isabelle
  imports Main "HOL-Library.Word"
begin

unbundle bit_operations_syntax

section \<open>Data model\<close>

text \<open>
  The metadata cache (package \<open>metadatacache\<close>) and the chunkserver RPC adapters
  (package \<open>rpc\<close>) of zircon. Go's \<open>uint\<close> is taken to be 64 bits wide, as on every
  64-bit platform; \<open>apis.ChunkNum\<close>, \<open>apis.MetadataID\<close> and \<open>apis.Version\<close> are
  64-bit unsigned integers, and offsets into a metadata block are \<open>uint32\<close>.
\<close>

type_synonym byte = "8 word"
type_synonym uint = "64 word"
type_synonym uint32 = "32 word"
type_synonym ChunkNum = "64 word"
type_synonym MetadataID = "64 word"
type_synonym Version = "64 word"
type_synonym ServerName = string

text \<open>
  A Go \<open>error\<close> value is modelled by the message it carries: \<open>errors.New msg\<close> builds
  it and \<open>err.Error()\<close> reads it back. The source never inspects an error beyond
  comparing it with \<open>nil\<close>, so \<open>nil\<close> is \<open>None\<close> of \<open>error option\<close>.
\<close>

datatype error = errors_New string

fun Error :: "error \<Rightarrow> string" where
  "Error (errors_New msg) = msg"

text \<open>
  A run-time panic ends the call without a result: the explicit \<open>panic(msg)\<close> calls of
  the source, an index out of range and slice bounds out of range. A function that can
  panic returns \<open>panic + 'a\<close>.
\<close>

datatype panic = panic string | index_out_of_range | slice_bounds_out_of_range

text \<open>
  The constants \<open>apis.EntriesPerBlock\<close>, \<open>apis.EntrySize\<close> and \<open>apis.BitsetSize\<close> are
  declared in package \<open>apis\<close>, which is not among the sources; they are untyped constants
  there (\<open>EntrySize\<close> is compared with an \<open>int\<close> and added to a \<open>uint32\<close>), so they are
  natural numbers here and every function that uses them takes the layout as a parameter.
\<close>

record layout =
  EntriesPerBlock :: nat
  EntrySize :: nat
  BitsetSize :: nat

section \<open>Chunk numbers\<close>

text \<open>\<open>chunkToBlockID\<close>: \<open>apis.MetadataID(chunk >> apis.EntriesPerBlock)\<close>.\<close>

definition chunkToBlockID :: "layout \<Rightarrow> ChunkNum \<Rightarrow> MetadataID" where
  "chunkToBlockID K chunk = drop_bit (EntriesPerBlock K) chunk"

text \<open>\<open>chunkToEntryNumber\<close>: \<open>uint(chunk) & ((1 << apis.EntriesPerBlock) - 1)\<close>.\<close>

definition chunkToEntryNumber :: "layout \<Rightarrow> ChunkNum \<Rightarrow> uint" where
  "chunkToEntryNumber K chunk = chunk AND (push_bit (EntriesPerBlock K) 1 - 1)"

text \<open>\<open>entryNumberToOffset\<close>: \<open>uint32(entryN)*apis.EntrySize + apis.BitsetSize\<close>, in
  32-bit arithmetic.\<close>

definition entryNumberToOffset :: "layout \<Rightarrow> uint \<Rightarrow> uint32" where
  "entryNumberToOffset K entryN = ucast entryN * of_nat (EntrySize K) + of_nat (BitsetSize K)"

definition chunkToBlockAndOffset :: "layout \<Rightarrow> ChunkNum \<Rightarrow> MetadataID \<times> uint32" where
  "chunkToBlockAndOffset K chunk =
     (chunkToBlockID K chunk, entryNumberToOffset K (chunkToEntryNumber K chunk))"

text \<open>\<open>entryAndBlockToChunkNum\<close> panics on block 0 and on an index that does not fit
  the low bits; otherwise it is \<open>uint64(metachunk << E) | uint64(index)\<close>.\<close>

definition entryAndBlockToChunkNum :: "layout \<Rightarrow> MetadataID \<Rightarrow> uint \<Rightarrow> panic + ChunkNum" where
  "entryAndBlockToChunkNum K metachunk index =
     (if metachunk = 0 \<or> index \<ge> push_bit (EntriesPerBlock K) 1
      then Inl (panic ''broken invariant for chunk location'')
      else Inr (push_bit (EntriesPerBlock K) metachunk OR index))"

section \<open>Allocation bitset\<close>

text \<open>\<open>getBitsetInData\<close>: \<open>bitset[index / 8]\<close> panics when the cell is beyond the slice;
  the mask is the byte \<open>1 << (index % 8)\<close>.\<close>

definition getBitsetInData :: "byte list \<Rightarrow> uint \<Rightarrow> panic + bool" where
  "getBitsetInData bitset index =
     (if unat (index div 8) < length bitset
      then (let cell = bitset ! unat (index div 8);
                mask = (push_bit (unat (index mod 8)) 1 :: byte)
            in Inr (cell AND mask \<noteq> 0))
      else Inl index_out_of_range)"

text \<open>\<open>updateBitsetInData\<close> gives the parameters of the write that sets or clears one
  bit: the offset \<open>uint32(index / 8)\<close> and the one new cell.\<close>

definition updateBitsetInData :: "byte list \<Rightarrow> uint \<Rightarrow> bool \<Rightarrow> panic + (uint32 \<times> byte list)" where
  "updateBitsetInData bitset index val =
     (if unat (index div 8) < length bitset
      then (let cell = bitset ! unat (index div 8);
                mask = (push_bit (unat (index mod 8)) 1 :: byte);
                cell' = (if val then cell OR mask else cell AND (mask XOR 0xFF))
            in Inr (ucast (index div 8), [cell']))
      else Inl index_out_of_range)"

text \<open>\<open>findFirstZero\<close>: the loop \<open>for i := uint(0); i < 8; i++\<close>, entered at \<open>i\<close> with the
  byte already shifted; leaving the loop is the panic.\<close>

function findFirstZero_from :: "uint \<Rightarrow> byte \<Rightarrow> panic + uint" where
  "findFirstZero_from i x =
     (if i < 8
      then (if x AND 1 = 0 then Inr i else findFirstZero_from (i + 1) (drop_bit 1 x))
      else Inl (panic ''had no zeroes!''))"
  by pat_completeness auto
termination
proof (relation "measure (\<lambda>(i, x). 8 - unat i)")
  show "wf (measure (\<lambda>(i::uint, x::byte). 8 - unat i))" by simp
next
  fix i :: uint and x :: byte
  assume "i < 8"
  then have "unat i < 8" by (simp add: word_less_nat_alt)
  then have "unat (i + 1) = unat i + 1" by (simp add: unat_word_ariths)
  with \<open>unat i < 8\<close> show "((i + 1, drop_bit 1 x), (i, x)) \<in> measure (\<lambda>(i, x). 8 - unat i)"
    by simp
qed

declare findFirstZero_from.simps [simp del]

definition findFirstZero :: "byte \<Rightarrow> panic + uint" where
  "findFirstZero x = findFirstZero_from 0 x"

text \<open>\<open>findAvailableCell\<close>: \<open>for i, cell := range bitset\<close>, entered at cell number \<open>i\<close>.\<close>

fun findAvailableCell_from :: "nat \<Rightarrow> byte list \<Rightarrow> panic + (uint \<times> bool)" where
  "findAvailableCell_from i [] = Inr (0, False)"
| "findAvailableCell_from i (cell # rest) =
     (if cell \<noteq> 0xFF
      then (case findFirstZero cell of
              Inl p \<Rightarrow> Inl p
            | Inr z \<Rightarrow> Inr (of_nat i * 8 + z, True))
      else findAvailableCell_from (Suc i) rest)"

definition findAvailableCell :: "byte list \<Rightarrow> panic + (uint \<times> bool)" where
  "findAvailableCell bitset = findAvailableCell_from 0 bitset"

section \<open>Entry slots\<close>

text \<open>
  \<open>apis.MetadataEntry\<close>, its \<open>Equals\<close> method and the \<open>encoding/gob\<close> codec are not
  among the sources: the entry type is a type variable and the operations on it are
  parameters. \<open>gob_Encode\<close> is \<open>enc.Encode(entry)\<close> on an empty buffer (the bytes written,
  or the error), \<open>gob_Decode\<close> is \<open>dec.Decode(&entry)\<close> on a reader over the given bytes
  (the entry decoded into and the error), \<open>empty_entry\<close> is \<open>apis.MetadataEntry{}\<close>.
\<close>

record 'e entry_ops =
  gob_Encode :: "'e \<Rightarrow> error + byte list"
  gob_Decode :: "byte list \<Rightarrow> 'e \<times> error option"
  Equals :: "'e \<Rightarrow> 'e \<Rightarrow> bool"
  empty_entry :: "'e"

definition deserializeEntry :: "'e entry_ops \<Rightarrow> byte list \<Rightarrow> 'e \<times> error option" where
  "deserializeEntry G data = gob_Decode G data"

text \<open>The padding loop \<open>for buf.Len() < apis.EntrySize { buf.WriteByte(0) }\<close>.\<close>

function pad_buf :: "nat \<Rightarrow> byte list \<Rightarrow> byte list" where
  "pad_buf n buf = (if length buf < n then pad_buf n (buf @ [0]) else buf)"
  by pat_completeness auto
termination
  by (relation "measure (\<lambda>(n, buf). n - length buf)") auto

declare pad_buf.simps [simp del]

definition serializeEntry :: "layout \<Rightarrow> 'e entry_ops \<Rightarrow> 'e \<Rightarrow> byte list \<times> error option" where
  "serializeEntry K G entry =
     (case gob_Encode G entry of
        Inl err \<Rightarrow> ([], Some err)
      | Inr buf \<Rightarrow>
          (let result = pad_buf (EntrySize K) buf
           in if length result \<noteq> EntrySize K
              then ([], Some (errors_New ''entry missized''))
              else (result, None)))"

text \<open>A slice expression \<open>xs[lo:hi]\<close>; the capacity of a slice is taken to be its
  length.\<close>

definition slice :: "'a list \<Rightarrow> nat \<Rightarrow> nat \<Rightarrow> panic + 'a list" where
  "slice xs lo hi =
     (if lo \<le> hi \<and> hi \<le> length xs then Inr (take (hi - lo) (drop lo xs))
      else Inl slice_bounds_out_of_range)"

text \<open>The slot of an entry, \<open>data[offset:offset+apis.EntrySize]\<close>; the upper bound is
  computed in \<open>uint32\<close>.\<close>

definition entry_slot :: "layout \<Rightarrow> byte list \<Rightarrow> uint32 \<Rightarrow> panic + byte list" where
  "entry_slot K data offset = slice data (unat offset) (unat (offset + of_nat (EntrySize K)))"

section \<open>Lease agent\<close>

text \<open>
  Package \<open>zircon/metadatacache/leasing\<close> is not among the sources: the lease agent
  \<open>mc.leasing\<close> is a parameter, a record of its four operations acting on a state \<open>'s\<close>
  of the agent's own. Each takes the state and returns the Go results with the new state.
\<close>

record 's leasing =
  lease_Read :: "MetadataID \<Rightarrow> 's \<Rightarrow> (byte list \<times> Version \<times> ServerName \<times> error option) \<times> 's"
  lease_Write :: "MetadataID \<Rightarrow> Version \<Rightarrow> uint32 \<Rightarrow> byte list \<Rightarrow> 's
                    \<Rightarrow> (Version \<times> ServerName \<times> error option) \<times> 's"
  lease_ListLeases :: "'s \<Rightarrow> (MetadataID list \<times> error option) \<times> 's"
  lease_GetAnyUnleased :: "'s \<Rightarrow> (MetadataID \<times> error option) \<times> 's"

text \<open>Modelled from the spec: \<open>apis.NoRedirect\<close> is declared in package \<open>apis\<close>; it is the
  sentinel server name that says the block is owned locally, here the empty name.\<close>

definition NoRedirect :: ServerName where
  "NoRedirect = []"

section \<open>Metadata cache\<close>

text \<open>\<open>ReadEntry\<close>. The result is a panic or the three Go results.\<close>

definition ReadEntry :: "layout \<Rightarrow> 'e entry_ops \<Rightarrow> 's leasing \<Rightarrow> ChunkNum \<Rightarrow> 's
    \<Rightarrow> (panic + ('e \<times> ServerName \<times> error option)) \<times> 's" where
  "ReadEntry K G L chunk s =
     (case chunkToBlockAndOffset K chunk of (metachunk, offset) \<Rightarrow>
      (case lease_Read L metachunk s of ((data, _, owner, err), s1) \<Rightarrow>
       (case err of
          Some e \<Rightarrow> (Inr (empty_entry G, owner, Some e), s1)
        | None \<Rightarrow>
           (case getBitsetInData data (chunkToEntryNumber K chunk) of
              Inl p \<Rightarrow> (Inl p, s1)
            | Inr found \<Rightarrow>
               if \<not> found
               then (Inr (empty_entry G, NoRedirect,
                          Some (errors_New ''entry doesn't exist to be able to be read'')), s1)
               else (case entry_slot K data offset of
                       Inl p \<Rightarrow> (Inl p, s1)
                     | Inr slot \<Rightarrow>
                        (case deserializeEntry G slot of
                           (entry, Some e) \<Rightarrow> (Inr (empty_entry G, NoRedirect, Some e), s1)
                         | (entry, None) \<Rightarrow> (Inr (entry, NoRedirect, None), s1)))))))"

text \<open>
  \<open>UpdateEntry\<close>. The \<open>for\<close> loop has no bound: the first argument is the number of
  iterations allowed, and \<open>None\<close> says that they did not suffice. Inside the loop the
  source declares \<open>entry, err := deserializeEntry(...)\<close>: this \<open>entry\<close> is a new variable
  of the loop body that hides the parameter of the same name, written \<open>entry'\<close> here; it
  is the one compared with \<open>previous\<close> and the one passed to \<open>serializeEntry\<close>.
\<close>

fun UpdateEntry :: "nat \<Rightarrow> layout \<Rightarrow> 'e entry_ops \<Rightarrow> 's leasing \<Rightarrow> ChunkNum \<Rightarrow> 'e \<Rightarrow> 'e \<Rightarrow> 's
    \<Rightarrow> ((panic + (ServerName \<times> error option)) \<times> 's) option" where
  "UpdateEntry 0 K G L chunk previous entry s = None"
| "UpdateEntry (Suc fuel) K G L chunk previous entry s =
     (case chunkToBlockAndOffset K chunk of (metachunk, offset) \<Rightarrow>
      (case lease_Read L metachunk s of ((data, version, owner, err), s1) \<Rightarrow>
       (case err of
          Some e \<Rightarrow> Some (Inr (owner, Some e), s1)
        | None \<Rightarrow>
           (case getBitsetInData data (chunkToEntryNumber K chunk) of
              Inl p \<Rightarrow> Some (Inl p, s1)
            | Inr found \<Rightarrow>
               if \<not> found
               then Some (Inr (NoRedirect,
                      Some (errors_New ''entry doesn't exist to be able to be updated'')), s1)
               else (case entry_slot K data offset of
                       Inl p \<Rightarrow> Some (Inl p, s1)
                     | Inr slot \<Rightarrow>
                        (case deserializeEntry G slot of
                           (entry', Some e) \<Rightarrow> Some (Inr (NoRedirect, Some e), s1)
                         | (entry', None) \<Rightarrow>
                            if \<not> Equals G entry' previous
                            then Some (Inr (NoRedirect,
                                   Some (errors_New ''entry does not match previous expected entry'')), s1)
                            else (case serializeEntry K G entry' of
                                    (updated, Some e) \<Rightarrow> Some (Inr (NoRedirect, Some e), s1)
                                  | (updated, None) \<Rightarrow>
                                     if length updated \<noteq> EntrySize K
                                     then Some (Inl (panic ''postcondition on serializeEntry failed''), s1)
                                     else (case lease_Write L metachunk version offset updated s1 of
                                             ((_, owner', err'), s2) \<Rightarrow>
                                              (case err' of
                                                 None \<Rightarrow> Some (Inr (NoRedirect, None), s2)
                                               | Some e \<Rightarrow>
                                                  if version = 0 then Some (Inr (owner', Some e), s2)
                                                  else UpdateEntry fuel K G L chunk previous entry s2)))))))))"

text \<open>\<open>DeleteEntry\<close>: the same loop; the write clears the allocation bit.\<close>

fun DeleteEntry :: "nat \<Rightarrow> layout \<Rightarrow> 'e entry_ops \<Rightarrow> 's leasing \<Rightarrow> ChunkNum \<Rightarrow> 'e \<Rightarrow> 's
    \<Rightarrow> ((panic + (ServerName \<times> error option)) \<times> 's) option" where
  "DeleteEntry 0 K G L chunk previous s = None"
| "DeleteEntry (Suc fuel) K G L chunk previous s =
     (case chunkToBlockAndOffset K chunk of (metachunk, offset) \<Rightarrow>
      (case lease_Read L metachunk s of ((data, version, owner, err), s1) \<Rightarrow>
       (case err of
          Some e \<Rightarrow> Some (Inr (owner, Some e), s1)
        | None \<Rightarrow>
           (case getBitsetInData data (chunkToEntryNumber K chunk) of
              Inl p \<Rightarrow> Some (Inl p, s1)
            | Inr found \<Rightarrow>
               if \<not> found
               then Some (Inr (NoRedirect,
                      Some (errors_New ''entry doesn't exist to be able to be deleted'')), s1)
               else (case entry_slot K data offset of
                       Inl p \<Rightarrow> Some (Inl p, s1)
                     | Inr slot \<Rightarrow>
                        (case deserializeEntry G slot of
                           (entry, Some e) \<Rightarrow> Some (Inr (NoRedirect, Some e), s1)
                         | (entry, None) \<Rightarrow>
                            if \<not> Equals G entry previous
                            then Some (Inr (NoRedirect,
                                   Some (errors_New ''entry does not match previous expected entry'')), s1)
                            else (case updateBitsetInData data (chunkToEntryNumber K chunk) False of
                                    Inl p \<Rightarrow> Some (Inl p, s1)
                                  | Inr (updateOffset, newData) \<Rightarrow>
                                     (case lease_Write L metachunk version updateOffset newData s1 of
                                        ((_, owner', err'), s2) \<Rightarrow>
                                         (case err' of
                                            None \<Rightarrow> Some (Inr (NoRedirect, None), s2)
                                          | Some e \<Rightarrow>
                                             if version = 0 then Some (Inr (owner', Some e), s2)
                                             else DeleteEntry fuel K G L chunk previous s2)))))))))"

text \<open>\<open>updateBitset\<close>: \<open>(true, nil)\<close> when the write went through, \<open>(false, nil)\<close> when
  the bit already had the value, \<open>(false, err)\<close> otherwise.\<close>

definition updateBitset :: "layout \<Rightarrow> 's leasing \<Rightarrow> MetadataID \<Rightarrow> uint \<Rightarrow> bool \<Rightarrow> 's
    \<Rightarrow> (panic + (bool \<times> error option)) \<times> 's" where
  "updateBitset K L metachunk index val s =
     (case lease_Read L metachunk s of ((data, version, _, err), s1) \<Rightarrow>
      (case err of
         Some e \<Rightarrow> (Inr (False, Some e), s1)
       | None \<Rightarrow>
          (case slice data 0 (BitsetSize K) of
             Inl p \<Rightarrow> (Inl p, s1)
           | Inr bitset \<Rightarrow>
              (case getBitsetInData bitset index of
                 Inl p \<Rightarrow> (Inl p, s1)
               | Inr existingValue \<Rightarrow>
                  if existingValue = val then (Inr (False, None), s1)
                  else (case updateBitsetInData bitset index val of
                          Inl p \<Rightarrow> (Inl p, s1)
                        | Inr (offset, newData) \<Rightarrow>
                           (case lease_Write L metachunk version offset newData s1 of
                              ((_, _, err'), s2) \<Rightarrow>
                               (case err' of
                                  Some e \<Rightarrow> (Inr (False, Some e), s2)
                                | None \<Rightarrow> (Inr (True, None), s2))))))))"

text \<open>\<open>findFreeChunkIn\<close>: \<open>(index, found, error)\<close>.\<close>

definition findFreeChunkIn :: "layout \<Rightarrow> 's leasing \<Rightarrow> MetadataID \<Rightarrow> 's
    \<Rightarrow> (panic + (uint \<times> bool \<times> error option)) \<times> 's" where
  "findFreeChunkIn K L metachunk s =
     (case lease_Read L metachunk s of ((data, _, _, err), s1) \<Rightarrow>
      (case err of
         Some e \<Rightarrow> (Inr (0, False, Some e), s1)
       | None \<Rightarrow>
          (case slice data 0 (BitsetSize K) of
             Inl p \<Rightarrow> (Inl p, s1)
           | Inr bitset \<Rightarrow>
              (case findAvailableCell bitset of
                 Inl p \<Rightarrow> (Inl p, s1)
               | Inr (cellIndex, found) \<Rightarrow>
                  if found then (Inr (cellIndex, True, None), s1)
                  else (Inr (0, False, None), s1)))))"

text \<open>\<open>findAnyLeasedFreeChunk\<close>: \<open>(metadataID, index, found, error)\<close>; the loop
  \<open>for _, metachunk := range leases\<close> is \<open>leases_loop\<close>.\<close>

fun leases_loop :: "layout \<Rightarrow> 's leasing \<Rightarrow> MetadataID list \<Rightarrow> 's
    \<Rightarrow> (panic + (MetadataID \<times> uint \<times> bool \<times> error option)) \<times> 's" where
  "leases_loop K L [] s = (Inr (0, 0, False, None), s)"
| "leases_loop K L (metachunk # rest) s =
     (case findFreeChunkIn K L metachunk s of
        (Inl p, s1) \<Rightarrow> (Inl p, s1)
      | (Inr (index, found, err), s1) \<Rightarrow>
         (case err of
            Some e \<Rightarrow> (Inr (0, 0, False, Some e), s1)
          | None \<Rightarrow>
             if found then (Inr (metachunk, index, True, None), s1)
             else leases_loop K L rest s1))"

definition findAnyLeasedFreeChunk :: "layout \<Rightarrow> 's leasing \<Rightarrow> 's
    \<Rightarrow> (panic + (MetadataID \<times> uint \<times> bool \<times> error option)) \<times> 's" where
  "findAnyLeasedFreeChunk K L s =
     (case lease_ListLeases L s of ((leases, err), s1) \<Rightarrow>
      (case err of
         Some e \<Rightarrow> (Inr (0, 0, False, Some e), s1)
       | None \<Rightarrow> leases_loop K L leases s1))"

text \<open>\<open>findAnyFreeChunk\<close>: \<open>(metadataID, index, error)\<close>. Its second half is an unbounded
  loop over \<open>GetAnyUnleased\<close>, \<open>unleased_loop\<close>, with the number of iterations allowed.\<close>

fun unleased_loop :: "nat \<Rightarrow> layout \<Rightarrow> 's leasing \<Rightarrow> 's
    \<Rightarrow> ((panic + (MetadataID \<times> uint \<times> error option)) \<times> 's) option" where
  "unleased_loop 0 K L s = None"
| "unleased_loop (Suc fuel) K L s =
     (case lease_GetAnyUnleased L s of ((metadataID, err), s1) \<Rightarrow>
      (case err of
         Some e \<Rightarrow> Some (Inr (0, 0, Some e), s1)
       | None \<Rightarrow>
          (case findFreeChunkIn K L metadataID s1 of
             (Inl p, s2) \<Rightarrow> Some (Inl p, s2)
           | (Inr (index, found, err'), s2) \<Rightarrow>
              (case err' of
                 Some e \<Rightarrow> Some (Inr (0, 0, Some e), s2)
               | None \<Rightarrow>
                  if found then Some (Inr (metadataID, index, None), s2)
                  else unleased_loop fuel K L s2))))"

definition findAnyFreeChunk :: "nat \<Rightarrow> layout \<Rightarrow> 's leasing \<Rightarrow> 's
    \<Rightarrow> ((panic + (MetadataID \<times> uint \<times> error option)) \<times> 's) option" where
  "findAnyFreeChunk fuel K L s =
     (case findAnyLeasedFreeChunk K L s of
        (Inl p, s1) \<Rightarrow> Some (Inl p, s1)
      | (Inr (metadataID, index, found, err), s1) \<Rightarrow>
         (case err of
            Some e \<Rightarrow> Some (Inr (0, 0, Some e), s1)
          | None \<Rightarrow>
             if found then Some (Inr (metadataID, index, None), s1)
             else unleased_loop fuel K L s1))"

text \<open>\<open>NewEntry\<close>: \<open>(chunkNum, error)\<close>; the same bound serves its own loop and the loop
  of each \<open>findAnyFreeChunk\<close> it calls.\<close>

fun NewEntry :: "nat \<Rightarrow> layout \<Rightarrow> 's leasing \<Rightarrow> 's
    \<Rightarrow> ((panic + (ChunkNum \<times> error option)) \<times> 's) option" where
  "NewEntry 0 K L s = None"
| "NewEntry (Suc fuel) K L s =
     (case findAnyFreeChunk (Suc fuel) K L s of
        None \<Rightarrow> None
      | Some (Inl p, s1) \<Rightarrow> Some (Inl p, s1)
      | Some (Inr (metachunk, index, err), s1) \<Rightarrow>
         (case err of
            Some e \<Rightarrow> Some (Inr (0, Some e), s1)
          | None \<Rightarrow>
             (case updateBitset K L metachunk index True s1 of
                (Inl p, s2) \<Rightarrow> Some (Inl p, s2)
              | (Inr (noclobber, err'), s2) \<Rightarrow>
                 (case err' of
                    Some e \<Rightarrow> Some (Inr (0, Some e), s2)
                  | None \<Rightarrow>
                     if noclobber
                     then (case entryAndBlockToChunkNum K metachunk index of
                             Inl p \<Rightarrow> Some (Inl p, s2)
                           | Inr c \<Rightarrow> Some (Inr (c, None), s2))
                     else NewEntry fuel K L s2))))"

section \<open>Chunkserver RPC adapters\<close>

text \<open>The messages \<open>twirp.Chunkserver_Read\<close> and \<open>twirp.Chunkserver_Read_Result\<close>, with the
  fields the adapters set (the spec's table of the RPC surface gives their types).\<close>

record Chunkserver_Read =
  rq_Chunk :: "64 word"
  rq_Offset :: "32 word"
  rq_Length :: "32 word"
  rq_Version :: "64 word"

record Chunkserver_Read_Result =
  rs_Data :: "byte list"
  rs_Version :: "64 word"
  rs_Error :: string

text \<open>\<open>proxyChunkserverAsTwirp.Read\<close>: the wrapped \<open>apis.Chunkserver\<close> is given by its
  \<open>Read\<close>. The Go results are the response and a \<open>nil\<close> error.\<close>

definition proxyChunkserverAsTwirp_Read ::
    "(ChunkNum \<Rightarrow> uint32 \<Rightarrow> uint32 \<Rightarrow> Version \<Rightarrow> byte list \<times> Version \<times> error option)
     \<Rightarrow> Chunkserver_Read \<Rightarrow> panic + (Chunkserver_Read_Result \<times> error option)" where
  "proxyChunkserverAsTwirp_Read server input =
     (case server (rq_Chunk input) (rq_Offset input) (rq_Length input) (rq_Version input) of
        (data, version, err) \<Rightarrow>
         (case err of
            None \<Rightarrow> Inr (\<lparr>rs_Data = data, rs_Version = version, rs_Error = []\<rparr>, None)
          | Some e \<Rightarrow>
             (let message = Error e
              in if message = [] then Inl (panic ''expected nonempty error code'')
                 else Inr (\<lparr>rs_Data = data, rs_Version = version, rs_Error = message\<rparr>, None))))"

text \<open>\<open>proxyTwirpAsChunkserver.Read\<close>: the wrapped \<open>twirp.Chunkserver\<close> is given by its
  \<open>Read\<close>, which returns a response and a transport error.\<close>

definition proxyTwirpAsChunkserver_Read ::
    "(Chunkserver_Read \<Rightarrow> Chunkserver_Read_Result \<times> error option)
     \<Rightarrow> ChunkNum \<Rightarrow> uint32 \<Rightarrow> uint32 \<Rightarrow> Version \<Rightarrow> byte list \<times> Version \<times> error option" where
  "proxyTwirpAsChunkserver_Read server chunk offset len minimum =
     (case server \<lparr>rq_Chunk = chunk, rq_Offset = offset, rq_Length = len, rq_Version = minimum\<rparr> of
        (result, err) \<Rightarrow>
         (case err of
            Some e \<Rightarrow> ([], 0, Some e)
          | None \<Rightarrow>
             if rs_Error result \<noteq> []
             then ([], rs_Version result, Some (errors_New (rs_Error result)))
             else (rs_Data result, rs_Version result, None)))"

section \<open>A lease agent and a small instance\<close>

text \<open>
  Modelled from the spec: the lease agent of section 4.3, for one frontend and without
  concurrent callers (package \<open>zircon/metadatacache/leasing\<close> is not among the sources).
  The agent caches the blocks whose lease it holds, each with its block version; \<open>Read\<close>
  of a block it holds returns the cached bytes and version, \<open>Read\<close> and \<open>Write\<close> of any
  other block return the name of the holder and an error; \<open>Write\<close> is the conditional
  sub-range write: it fails when the expected block version is not the current one, and
  otherwise replaces the bytes from \<open>offset\<close> on and increments the block version;
  \<open>GetAnyUnleased\<close> takes the lease of the first block nobody holds.
\<close>

record store =
  held :: "(MetadataID \<times> byte list \<times> Version) list"
  others :: "(MetadataID \<times> ServerName) list"
  unleased :: "(MetadataID \<times> byte list \<times> Version) list"

definition holder :: "store \<Rightarrow> MetadataID \<Rightarrow> ServerName" where
  "holder s m = (case map_of (others s) m of Some name \<Rightarrow> name | None \<Rightarrow> NoRedirect)"

definition write_range :: "byte list \<Rightarrow> nat \<Rightarrow> byte list \<Rightarrow> byte list" where
  "write_range block off bytes = take off block @ bytes @ drop (off + length bytes) block"

definition store_Read :: "MetadataID \<Rightarrow> store \<Rightarrow> (byte list \<times> Version \<times> ServerName \<times> error option) \<times> store" where
  "store_Read m s =
     (case map_of (held s) m of
        Some (block, version) \<Rightarrow> ((block, version, NoRedirect, None), s)
      | None \<Rightarrow> (([], 0, holder s m, Some (errors_New ''lease held by another server'')), s))"

definition store_Write :: "MetadataID \<Rightarrow> Version \<Rightarrow> uint32 \<Rightarrow> byte list \<Rightarrow> store
    \<Rightarrow> (Version \<times> ServerName \<times> error option) \<times> store" where
  "store_Write m expected offset bytes s =
     (case map_of (held s) m of
        None \<Rightarrow> ((0, holder s m, Some (errors_New ''lease held by another server'')), s)
      | Some (block, version) \<Rightarrow>
         if expected \<noteq> version
         then ((0, NoRedirect, Some (errors_New ''version mismatch'')), s)
         else if unat offset + length bytes > length block
         then ((0, NoRedirect, Some (errors_New ''write beyond the block'')), s)
         else ((version + 1, NoRedirect, None),
               s\<lparr>held := map (\<lambda>(k, b). if k = m then (k, write_range block (unat offset) bytes, version + 1)
                                         else (k, b)) (held s)\<rparr>))"

definition store_GetAnyUnleased :: "store \<Rightarrow> (MetadataID \<times> error option) \<times> store" where
  "store_GetAnyUnleased s =
     (case unleased s of
        [] \<Rightarrow> ((0, Some (errors_New ''no unleased block'')), s)
      | (m, b) # rest \<Rightarrow> ((m, None), s\<lparr>held := held s @ [(m, b)], unleased := rest\<rparr>))"

definition store_agent :: "store leasing" where
  "store_agent =
     \<lparr>lease_Read = store_Read, lease_Write = store_Write,
      lease_ListLeases = (\<lambda>s. ((map fst (held s), None), s)),
      lease_GetAnyUnleased = store_GetAnyUnleased\<rparr>"

text \<open>
  A lease agent that answers \<open>Read\<close> and \<open>Write\<close> from a script, one answer per call:
  the way to run the cache against answers that depend on what other callers and other
  servers did in between.
\<close>

record replay =
  reads :: "(byte list \<times> Version \<times> ServerName \<times> error option) list"
  writes :: "(Version \<times> ServerName \<times> error option) list"
  leases :: "MetadataID list"

definition replay_agent :: "replay leasing" where
  "replay_agent =
     \<lparr>lease_Read = (\<lambda>m s. case reads s of
          [] \<Rightarrow> (([], 0, NoRedirect, Some (errors_New ''script ended'')), s)
        | r # rest \<Rightarrow> (r, s\<lparr>reads := rest\<rparr>)),
      lease_Write = (\<lambda>m v off bytes s. case writes s of
          [] \<Rightarrow> ((0, NoRedirect, Some (errors_New ''script ended'')), s)
        | w # rest \<Rightarrow> (w, s\<lparr>writes := rest\<rparr>)),
      lease_ListLeases = (\<lambda>s. ((leases s, None), s)),
      lease_GetAnyUnleased = (\<lambda>s. ((0, Some (errors_New ''no unleased block'')), s))\<rparr>"

text \<open>
  A small instance to evaluate the model on: eight entries of four bytes in a block, and
  entries of two one-byte fields encoded as a length byte and the fields. \<open>Decode\<close> reads
  the length byte and the fields and leaves what follows.
\<close>

definition small :: layout where
  "small = \<lparr>EntriesPerBlock = 3, EntrySize = 4, BitsetSize = 1\<rparr>"

definition pairs :: "(byte \<times> byte) entry_ops" where
  "pairs =
     \<lparr>gob_Encode = (\<lambda>(v, r). Inr [2, v, r]),
      gob_Decode = (\<lambda>bytes. case bytes of
          n # v # r # rest \<Rightarrow> if n = 2 then ((v, r), None)
                              else ((0, 0), Some (errors_New ''gob: bad length''))
        | _ \<Rightarrow> ((0, 0), Some (errors_New ''EOF''))),
      Equals = (=),
      empty_entry = (0, 0)\<rparr>"

text \<open>Block 1 with entry 0 allocated and holding \<open>(7, 9)\<close>, at block version 5.\<close>

definition block1 :: "byte list" where
  "block1 = [0x01, 2, 7, 9, 0] @ replicate 28 0"

definition store1 :: store where
  "store1 = \<lparr>held = [(1, block1, 5)], others = [(2, ''B'')], unleased = []\<rparr>"

text \<open>A script for \<open>UpdateEntry\<close> and \<open>DeleteEntry\<close> on chunk 8: the block is read at
  version 5, the write that follows fails with a timeout, and by the next read the
  lease has gone to server \<open>B\<close>.\<close>

definition timeout_script :: replay where
  "timeout_script =
     \<lparr>reads = [(block1, 5, NoRedirect, None),
               ([], 0, ''B'', Some (errors_New ''lease held by another server''))],
      writes = [(0, NoRedirect, Some (errors_New ''timeout''))],
      leases = [1]\<rparr>"

text \<open>A script for \<open>NewEntry\<close>: block 1 is leased; the scan reads it with only entry 0
  allocated, so that entry 1 is chosen; the read of \<open>updateBitset\<close> sees the bitset cell
  given, and the write gets the answer given.\<close>

definition alloc_script :: "byte \<Rightarrow> (Version \<times> ServerName \<times> error option) \<Rightarrow> replay" where
  "alloc_script cell answer =
     \<lparr>reads = [(block1, 5, NoRedirect, None), (cell # tl block1, 5, NoRedirect, None)],
      writes = [answer],
      leases = [1]\<rparr>"

text \<open>The calls the cache makes to the lease agent: \<open>logged L\<close> is the agent \<open>L\<close> that
  also records every \<open>Read\<close> and \<open>Write\<close> it receives, with its arguments, the block and
  version read and the error returned.\<close>

datatype event =
  Read_call MetadataID "byte list" Version "error option"
| Write_call MetadataID Version uint32 "byte list" "error option"

fun write_succeeded :: "event \<Rightarrow> bool" where
  "write_succeeded (Write_call m version offset bytes err) = (err = None)"
| "write_succeeded (Read_call m block version err) = False"

definition logged :: "'s leasing \<Rightarrow> ('s \<times> event list) leasing" where
  "logged L =
     \<lparr>lease_Read = (\<lambda>m (s, log).
          case lease_Read L m s of
            ((block, version, owner, err), s') \<Rightarrow>
              ((block, version, owner, err), (s', log @ [Read_call m block version err]))),
      lease_Write = (\<lambda>m version offset bytes (s, log).
          case lease_Write L m version offset bytes s of
            ((version', owner, err), s') \<Rightarrow>
              ((version', owner, err), (s', log @ [Write_call m version offset bytes err]))),
      lease_ListLeases = (\<lambda>(s, log). case lease_ListLeases L s of (r, s') \<Rightarrow> (r, (s', log))),
      lease_GetAnyUnleased = (\<lambda>(s, log). case lease_GetAnyUnleased L s of (r, s') \<Rightarrow> (r, (s', log)))\<rparr>"

text \<open>A lease agent whose reads are served (block 1 at version 5) and whose writes
  all fail with a timeout.\<close>

definition timeout_agent :: "unit leasing" where
  "timeout_agent =
     \<lparr>lease_Read = (\<lambda>m s. ((block1, 5, NoRedirect, None), s)),
      lease_Write = (\<lambda>m version offset bytes s. ((0, NoRedirect, Some (errors_New ''timeout'')), s)),
      lease_ListLeases = (\<lambda>s. (([1], None), s)),
      lease_GetAnyUnleased = (\<lambda>s. ((0, Some (errors_New ''no unleased block'')), s))\<rparr>"

text \<open>A script for \<open>DeleteEntry\<close> on chunk 8 that loses the first write to a concurrent
  writer: the block is read at version 5, the write fails with a version mismatch, the
  block is read again at version 6 and the second write goes through.\<close>

definition retry_script :: replay where
  "retry_script =
     \<lparr>reads = [(block1, 5, NoRedirect, None), (block1, 6, NoRedirect, None)],
      writes = [(0, NoRedirect, Some (errors_New ''version mismatch'')), (7, NoRedirect, None)],
      leases = [1]\<rparr>"

text \<open>The writes among the recorded calls.\<close>

fun is_write :: "event \<Rightarrow> bool" where
  "is_write (Write_call m version offset bytes err) = True"
| "is_write (Read_call m block version err) = False"

text \<open>
  The calls of a run of the loop of \<open>DeleteEntry\<close> on block \<open>m\<close> and entry index \<open>i\<close> that
  ends in success: one attempt after the other, each a read of the block that succeeds
  and the write, expecting the version read, of one byte at offset \<open>uint32(i / 8)\<close>, the
  cell read with the mask \<open>1 << (i % 8)\<close> removed; the write of every attempt but the
  last fails, the write of the last succeeds.
\<close>

fun clearing_attempts :: "MetadataID \<Rightarrow> uint \<Rightarrow> event list \<Rightarrow> bool" where
  "clearing_attempts m i (Read_call m' block version rerr
                          # Write_call m'' version' offset bytes werr # rest) =
     (m' = m \<and> m'' = m \<and> rerr = None \<and> version' = version
      \<and> unat (i div 8) < length block
      \<and> offset = ucast (i div 8)
      \<and> bytes = [block ! unat (i div 8) AND (push_bit (unat (i mod 8)) 1 XOR 0xFF)]
      \<and> (if rest = [] then werr = None else werr \<noteq> None \<and> clearing_attempts m i rest))"
| "clearing_attempts m i log = False"

section \<open>Bit split\<close>

lemma low_bits_mask: "push_bit n (1::'a::len word) - 1 = mask n"
  by (simp add: mask_eq_exp_minus_1 push_bit_eq_mult)

lemma hi_bits_clear:
  fixes m :: "'a::len word"
  assumes "unat m < 2 ^ k" "k \<le> n"
  shows "\<not> bit m n"
proof
  assume b: "bit m n"
  have "take_bit k (unat m) = unat m"
    using assms(1) by (simp add: take_bit_nat_eq_self)
  moreover have "bit (unat m) n"
    using b by (simp add: bit_unsigned_iff)
  ultimately have "bit (take_bit k (unat m)) n" by simp
  then show False using assms(2) by (simp add: bit_take_bit_iff)
qed

lemma split_block:
  fixes m i :: "64 word"
  assumes m: "unat m < 2 ^ (64 - E)" and i: "unat i < 2 ^ E"
  shows "drop_bit E (push_bit E m OR i) = m"
proof (rule bit_word_eqI)
  fix n assume n: "n < LENGTH(64)"
  have "\<not> bit i (E + n)" using hi_bits_clear[OF i] by simp
  moreover have "\<not> E + n < 64 \<Longrightarrow> \<not> bit m n"
    using hi_bits_clear[OF m, of n] by simp
  ultimately show "bit (drop_bit E (push_bit E m OR i)) n = bit m n"
    using n by (auto simp add: bit_simps)
qed

lemma split_index:
  fixes m i :: "64 word"
  assumes i: "unat i < 2 ^ E"
  shows "(push_bit E m OR i) AND mask E = i"
proof (rule bit_word_eqI)
  fix n assume n: "n < LENGTH(64)"
  have "\<not> n < E \<Longrightarrow> \<not> bit i n" using hi_bits_clear[OF i, of n] by simp
  then show "bit ((push_bit E m OR i) AND mask E) n = bit i n"
    using n by (auto simp add: bit_simps)
qed

lemma unat_one_shifted:
  assumes "E < 64"
  shows "unat (2 ^ E :: 64 word) = 2 ^ E"
proof -
  have "(2::nat) ^ E < 2 ^ 64"
    by (rule power_strict_increasing) (use assms in simp_all)
  then have "take_bit 64 ((2::nat) ^ E) = 2 ^ E"
    by (simp only: take_bit_nat_eq_self)
  then show ?thesis
    by (simp add: unsigned_push_bit_eq [of E "1::64 word", unfolded push_bit_eq_mult, simplified] push_bit_eq_mult)
qed

lemma index_in_range:
  fixes i m :: "64 word"
  assumes i: "unat i < 2 ^ E" and m: "unat m < 2 ^ (64 - E)" "m \<noteq> 0"
  shows "\<not> push_bit E 1 \<le> i"
proof -
  have E: "E < 64"
  proof (rule ccontr)
    assume "\<not> E < 64"
    then have "unat m < 1" using m(1) by simp
    then show False using m(2) by (simp add: unsigned_eq_0_iff)
  qed
  show ?thesis using i by (simp add: word_le_nat_alt unat_one_shifted[OF E])
qed

text \<open>
  C5. Composing a chunk number from a block id \<open>m\<close> with \<open>0 < m < 2^(64 - E)\<close> and an
  index \<open>i < 2^E\<close> does not panic, and decomposing the result gives \<open>m\<close> and \<open>i\<close> back:
  the index is the low \<open>E\<close> bits of the chunk number and the block id the bits above.
\<close>

theorem chunk_split_inverse:
  assumes "m \<noteq> 0" and "unat m < 2 ^ (64 - EntriesPerBlock K)"
    and "unat i < 2 ^ EntriesPerBlock K"
  shows "\<exists>c. entryAndBlockToChunkNum K m i = Inr c
           \<and> chunkToBlockID K c = m \<and> chunkToEntryNumber K c = i
           \<and> chunkToEntryNumber K c = take_bit (EntriesPerBlock K) c
           \<and> chunkToBlockID K c = drop_bit (EntriesPerBlock K) c"
proof -
  let ?E = "EntriesPerBlock K"
  let ?c = "push_bit ?E m OR i"
  have "entryAndBlockToChunkNum K m i = Inr ?c"
    unfolding entryAndBlockToChunkNum_def
    using index_in_range[OF assms(3) assms(2) assms(1)] assms(1) by simp
  moreover have "chunkToBlockID K ?c = m"
    unfolding chunkToBlockID_def by (rule split_block[OF assms(2) assms(3)])
  moreover have "chunkToEntryNumber K ?c = i"
    unfolding chunkToEntryNumber_def low_bits_mask by (rule split_index[OF assms(3)])
  moreover have "chunkToEntryNumber K ?c = take_bit ?E ?c"
    unfolding chunkToEntryNumber_def low_bits_mask by (simp add: take_bit_eq_mask)
  moreover have "chunkToBlockID K ?c = drop_bit ?E ?c"
    by (simp add: chunkToBlockID_def)
  ultimately show ?thesis by blast
qed

theorem chunk_split_inverse_witness:
  "\<exists>c. entryAndBlockToChunkNum \<lparr>EntriesPerBlock = 2, EntrySize = 4, BitsetSize = 1\<rparr> 3 1 = Inr c
       \<and> chunkToBlockID \<lparr>EntriesPerBlock = 2, EntrySize = 4, BitsetSize = 1\<rparr> c = 3
       \<and> chunkToEntryNumber \<lparr>EntriesPerBlock = 2, EntrySize = 4, BitsetSize = 1\<rparr> c = 1"
  using chunk_split_inverse [of 3 "\<lparr>EntriesPerBlock = 2, EntrySize = 4, BitsetSize = 1\<rparr>" 1]
  by auto

section \<open>Free-slot scan\<close>

lemma byte_and_one: "(x::byte) AND 1 = 0 \<longleftrightarrow> \<not> bit x 0"
  by (simp add: and_one_eq bit_0 mod_2_eq_odd)

lemma findFirstZero_from_least:
  assumes "z < 8 - unat i" and "\<not> bit x z" and "\<forall>j<z. bit x j"
  shows "findFirstZero_from i x = Inr (i + of_nat z)"
  using assms
proof (induction z arbitrary: i x)
  case 0
  then have "unat i < 8" by simp
  then have "i < 8" by (simp add: word_less_nat_alt)
  with 0 show ?case by (subst findFirstZero_from.simps) (simp add: byte_and_one)
next
  case (Suc z)
  then have u: "unat i < 8" by simp
  then have i8: "i < 8" by (simp add: word_less_nat_alt)
  have u1: "unat (i + 1) = unat i + 1" using u by (simp add: unat_word_ariths)
  have b0: "bit x 0" using Suc.prems(3) by simp
  have "findFirstZero_from (i + 1) (drop_bit 1 x) = Inr (i + 1 + of_nat z)"
  proof (rule Suc.IH)
    show "z < 8 - unat (i + 1)" using Suc.prems(1) u1 by simp
    show "\<not> bit (drop_bit 1 x) z" using Suc.prems(2) by (simp add: bit_drop_bit_eq)
    show "\<forall>j<z. bit (drop_bit 1 x) j" using Suc.prems(3) by (simp add: bit_drop_bit_eq)
  qed
  then show ?case using i8 b0
    by (subst findFirstZero_from.simps) (simp add: byte_and_one)
qed

lemma byte_has_zero:
  fixes x :: byte
  assumes "x \<noteq> 0xFF"
  shows "\<exists>z<8. \<not> bit x z"
proof (rule ccontr)
  assume "\<not> (\<exists>z<8. \<not> bit x z)"
  then have all: "\<forall>z<8. bit x z" by simp
  have "x = - 1"
    by (rule bit_word_eqI) (use all in simp)
  then show False using assms by simp
qed

lemma byte_full: "bit (0xFF::byte) z \<longleftrightarrow> z < 8"
proof -
  have "(0xFF::byte) = - 1" by simp
  then show ?thesis by (simp only: bit_minus_1_iff) (simp add: possible_bit_def)
qed


lemma findFirstZero_least:
  assumes "z < 8" and "\<not> bit x z" and "\<forall>j<z. bit x j"
  shows "findFirstZero x = Inr (of_nat z)"
  unfolding findFirstZero_def
  using findFirstZero_from_least[of z 0 x] assms by simp

lemma findAvailableCell_from_first:
  assumes "c < length bs" and "\<forall>k<c. bs ! k = 0xFF" and "bs ! c \<noteq> 0xFF"
    and "z < 8" and "\<not> bit (bs ! c) z" and "\<forall>j<z. bit (bs ! c) j"
  shows "findAvailableCell_from i bs = Inr (of_nat (i + c) * 8 + of_nat z, True)"
  using assms
proof (induction bs arbitrary: i c)
  case Nil
  then show ?case by simp
next
  case (Cons cell rest)
  show ?case
  proof (cases c)
    case 0
    with Cons.prems show ?thesis
      by (simp add: findFirstZero_least[of z cell])
  next
    case (Suc c')
    have full: "cell = 0xFF" using Cons.prems(2) Suc by auto
    have "findAvailableCell_from (Suc i) rest = Inr (of_nat (Suc i + c') * 8 + of_nat z, True)"
    proof (rule Cons.IH)
      show "c' < length rest" using Cons.prems(1) Suc by simp
      show "\<forall>k<c'. rest ! k = 0xFF" using Cons.prems(2) Suc by auto
      show "rest ! c' \<noteq> 0xFF" using Cons.prems(3) Suc by simp
      show "z < 8" by fact
      show "\<not> bit (rest ! c') z" using Cons.prems(5) Suc by simp
      show "\<forall>j<z. bit (rest ! c') j" using Cons.prems(6) Suc by simp
    qed
    then show ?thesis using full Suc by simp
  qed
qed

lemma findAvailableCell_from_full:
  assumes "\<forall>c\<in>set bs. c = 0xFF"
  shows "findAvailableCell_from i bs = Inr (0, False)"
  using assms by (induction bs arbitrary: i) auto

lemma bitset_full_iff:
  "(\<forall>c\<in>set bs. c = (0xFF::byte)) \<longleftrightarrow> \<not> (\<exists>j<8 * length bs. \<not> bit (bs ! (j div 8)) (j mod 8))"
proof
  assume full: "\<forall>c\<in>set bs. c = 0xFF"
  show "\<not> (\<exists>j<8 * length bs. \<not> bit (bs ! (j div 8)) (j mod 8))"
  proof
    assume "\<exists>j<8 * length bs. \<not> bit (bs ! (j div 8)) (j mod 8)"
    then obtain j where j: "j < 8 * length bs" "\<not> bit (bs ! (j div 8)) (j mod 8)" by blast
    then have "j div 8 < length bs" by simp
    then have "bs ! (j div 8) = 0xFF" using full by simp
    then show False using j(2) byte_full[of "j mod 8"] by simp
  qed
next
  assume none: "\<not> (\<exists>j<8 * length bs. \<not> bit (bs ! (j div 8)) (j mod 8))"
  show "\<forall>c\<in>set bs. c = 0xFF"
  proof
    fix c assume "c \<in> set bs"
    then obtain k where k: "k < length bs" "bs ! k = c" by (auto simp: in_set_conv_nth)
    show "c = 0xFF"
    proof (rule ccontr)
      assume "c \<noteq> 0xFF"
      then obtain z where z: "z < 8" "\<not> bit c z" using byte_has_zero by blast
      have "8 * k + z < 8 * length bs" using k(1) z(1) by simp
      moreover have "(8 * k + z) div 8 = k" "(8 * k + z) mod 8 = z" using z(1) by simp_all
      ultimately show False using none k(2) z(2) by metis
    qed
  qed
qed

lemma findAvailableCell_lowest:
  assumes ex: "\<exists>j<8 * length bs. \<not> bit (bs ! (j div 8)) (j mod 8)"
  shows "\<exists>i<8 * length bs. findAvailableCell bs = Inr (of_nat i, True)
           \<and> \<not> bit (bs ! (i div 8)) (i mod 8)
           \<and> (\<forall>j<i. bit (bs ! (j div 8)) (j mod 8))
           \<and> (\<forall>c<i div 8. bs ! c = 0xFF)"
proof -
  define P where "P j \<longleftrightarrow> j < 8 * length bs \<and> \<not> bit (bs ! (j div 8)) (j mod 8)" for j
  define i where "i = (LEAST j. P j)"
  from ex have "\<exists>j. P j" by (auto simp: P_def)
  then have Pi: "P i" unfolding i_def by (metis LeastI)
  have least: "\<And>j. j < i \<Longrightarrow> \<not> P j" unfolding i_def by (rule not_less_Least)
  have ilt: "i < 8 * length bs" and iz: "\<not> bit (bs ! (i div 8)) (i mod 8)"
    using Pi by (simp_all add: P_def)
  have below: "\<forall>j<i. bit (bs ! (j div 8)) (j mod 8)"
  proof (intro allI impI)
    fix j assume "j < i"
    then have "\<not> P j" "j < 8 * length bs" using least ilt by auto
    then show "bit (bs ! (j div 8)) (j mod 8)" by (simp add: P_def)
  qed
  have cells: "\<forall>c<i div 8. bs ! c = 0xFF"
  proof (intro allI impI)
    fix c assume c: "c < i div 8"
    show "bs ! c = 0xFF"
    proof (rule ccontr)
      assume "bs ! c \<noteq> 0xFF"
      then obtain z where z: "z < 8" "\<not> bit (bs ! c) z" using byte_has_zero by blast
      have "8 * c + z < i" using c z(1) by (simp add: less_mult_imp_div_less)
      moreover have "(8 * c + z) div 8 = c" "(8 * c + z) mod 8 = z" using z(1) by simp_all
      ultimately show False using below z(2) by metis
    qed
  qed
  have cell: "bs ! (i div 8) \<noteq> 0xFF"
    using iz byte_full[of "i mod 8"] by auto
  have inner: "\<forall>j<i mod 8. bit (bs ! (i div 8)) j"
  proof (intro allI impI)
    fix j assume j: "j < i mod 8"
    have "8 * (i div 8) + j < i" using j mult_div_mod_eq[of 8 i] by linarith
    moreover have "(8 * (i div 8) + j) div 8 = i div 8" "(8 * (i div 8) + j) mod 8 = j"
      using j by simp_all
    ultimately show "bit (bs ! (i div 8)) j" using below by metis
  qed
  have "findAvailableCell_from 0 bs = Inr (of_nat (0 + i div 8) * 8 + of_nat (i mod 8), True)"
    by (rule findAvailableCell_from_first) (use ilt cells cell iz inner in simp_all)
  moreover have "(of_nat (i div 8) * 8 + of_nat (i mod 8) :: uint) = of_nat i"
  proof -
    have "(of_nat i :: uint) = of_nat (i div 8 * 8 + i mod 8)"
      by (simp only: div_mult_mod_eq)
    also have "\<dots> = of_nat (i div 8) * 8 + of_nat (i mod 8)"
      by (simp only: of_nat_add of_nat_mult of_nat_numeral)
    finally show ?thesis by simp
  qed
  ultimately have "findAvailableCell bs = Inr (of_nat i, True)"
    by (simp add: findAvailableCell_def)
  then show ?thesis using ilt iz below cells by blast
qed


text \<open>
  C8. The scan of an allocation bitset goes over the cells in order, passes every cell
  equal to \<open>0xFF\<close> and returns the lowest clear bit of the first other cell: when some
  bit is clear, the index returned is the smallest clear bit of the whole bitset and
  every cell before its cell is \<open>0xFF\<close>; when all cells are \<open>0xFF\<close> it returns
  \<open>found = false\<close>. The result is a function of the bitset, so the order is deterministic.
\<close>

theorem findAvailableCell_scan:
  "((\<exists>j<8 * length bs. \<not> bit (bs ! (j div 8)) (j mod 8)) \<longrightarrow>
      (\<exists>i<8 * length bs. findAvailableCell bs = Inr (of_nat i, True)
         \<and> \<not> bit (bs ! (i div 8)) (i mod 8)
         \<and> (\<forall>j<i. bit (bs ! (j div 8)) (j mod 8))
         \<and> (\<forall>c<i div 8. bs ! c = 0xFF)
         \<and> (8 * length bs \<le> 2 ^ 64 \<longrightarrow> unat (of_nat i :: uint) = i)))
   \<and> ((\<forall>c\<in>set bs. c = 0xFF) \<longrightarrow> findAvailableCell bs = Inr (0, False))"
proof (intro conjI impI)
  assume "\<exists>j<8 * length bs. \<not> bit (bs ! (j div 8)) (j mod 8)"
  from findAvailableCell_lowest[OF this] obtain i where i: "i < 8 * length bs"
    "findAvailableCell bs = Inr (of_nat i, True)" "\<not> bit (bs ! (i div 8)) (i mod 8)"
    "\<forall>j<i. bit (bs ! (j div 8)) (j mod 8)" "\<forall>c<i div 8. bs ! c = 0xFF"
    by blast
  have "8 * length bs \<le> 2 ^ 64 \<longrightarrow> unat (of_nat i :: uint) = i"
  proof
    assume "8 * length bs \<le> 2 ^ 64"
    then have "i < 2 ^ 64" using i(1) by simp
    then show "unat (of_nat i :: uint) = i"
      by (simp add: unat_of_nat take_bit_nat_eq_self)
  qed
  with i show "\<exists>i<8 * length bs. findAvailableCell bs = Inr (of_nat i, True)
         \<and> \<not> bit (bs ! (i div 8)) (i mod 8)
         \<and> (\<forall>j<i. bit (bs ! (j div 8)) (j mod 8))
         \<and> (\<forall>c<i div 8. bs ! c = 0xFF)
         \<and> (8 * length bs \<le> 2 ^ 64 \<longrightarrow> unat (of_nat i :: uint) = i)"
    by blast
next
  assume "\<forall>c\<in>set bs. c = 0xFF"
  then show "findAvailableCell bs = Inr (0, False)"
    unfolding findAvailableCell_def by (rule findAvailableCell_from_full)
qed

theorem findAvailableCell_scan_witness:
  "(\<exists>j<8 * length [0xFF, 0xFB::byte]. \<not> bit ([0xFF, 0xFB::byte] ! (j div 8)) (j mod 8))
   \<and> findAvailableCell [0xFF, 0xFB] = Inr (10, True)
   \<and> set [0xFF, 0xFF::byte] = {0xFF}
   \<and> findAvailableCell [0xFF, 0xFF] = Inr (0, False)"
proof -
  have h: "\<exists>j<8 * length [0xFF, 0xFB::byte]. \<not> bit ([0xFF, 0xFB::byte] ! (j div 8)) (j mod 8)"
    by (rule exI[of _ 10]) simp
  have "findAvailableCell [0xFF, 0xFB] = Inr (10, True)"
    using findAvailableCell_scan[of "[0xFF, 0xFB]"] h
    by (simp add: findAvailableCell_def findFirstZero_def findFirstZero_from.simps)
  moreover have "findAvailableCell [0xFF, 0xFF] = Inr (0, False)"
    using findAvailableCell_scan[of "[0xFF, 0xFF]"] by simp
  ultimately show ?thesis using h by simp
qed

section \<open>Entry slots: round trip\<close>

lemma pad_buf_eq: "pad_buf n buf = buf @ replicate (n - length buf) 0"
proof (induction n buf rule: pad_buf.induct)
  case (1 n buf)
  show ?case
  proof (cases "length buf < n")
    case True
    then have "n - length buf = Suc (n - Suc (length buf))" by simp
    with True 1 show ?thesis
      by (subst pad_buf.simps) (simp add: replicate_app_Cons_same)
  next
    case False
    then show ?thesis by (subst pad_buf.simps) simp
  qed
qed

text \<open>
  C3. Let the codec read back an encoded entry from the front of a slot and leave the
  zero bytes that follow it (what \<open>gob\<close> does with a value and the padding after it).
  Then for every entry on which \<open>serializeEntry\<close> succeeds, the result is exactly
  \<open>EntrySize\<close> bytes long and \<open>deserializeEntry\<close> of it returns the entry, with no error.
\<close>

theorem serialize_round_trip:
  assumes gob: "\<forall>e bytes n. gob_Encode G e = Inr bytes \<longrightarrow>
                  gob_Decode G (bytes @ replicate n 0) = (e, None)"
    and ok: "serializeEntry K G e = (result, None)"
  shows "length result = EntrySize K \<and> deserializeEntry G result = (e, None)"
proof -
  from ok obtain buf where enc: "gob_Encode G e = Inr buf"
    and res: "result = pad_buf (EntrySize K) buf" and len: "length result = EntrySize K"
    by (auto simp: serializeEntry_def Let_def split: sum.splits if_splits)
  have "deserializeEntry G result = (e, None)"
    using gob enc unfolding res pad_buf_eq deserializeEntry_def by blast
  with len show ?thesis by simp
qed

lemma pairs_prefix:
  "\<forall>e bytes n. gob_Encode pairs e = Inr bytes \<longrightarrow>
      gob_Decode pairs (bytes @ replicate n 0) = (e, None)"
  by (auto simp: pairs_def)

theorem serialize_round_trip_witness:
  "serializeEntry small pairs (7, 9) = ([2, 7, 9, 0], None)
   \<and> length [2, 7, 9, 0 :: byte] = EntrySize small
   \<and> deserializeEntry pairs [2, 7, 9, 0] = ((7, 9), None)"
proof -
  have ok: "serializeEntry small pairs (7, 9) = ([2, 7, 9, 0], None)"
    by (simp add: serializeEntry_def small_def pairs_def pad_buf_eq)
  show ?thesis
    using serialize_round_trip[OF pairs_prefix ok] ok by simp
qed

section \<open>Reading a deallocated entry\<close>

text \<open>
  C7. When the lease agent serves the block of a chunk (its \<open>Read\<close> returns no error)
  and the allocation bit of the chunk is clear, \<open>ReadEntry\<close> returns the empty entry,
  the no-redirect sentinel and the error that the entry does not exist.
\<close>

theorem ReadEntry_deallocated:
  assumes "lease_Read L (chunkToBlockID K chunk) s = ((data, version, owner, None), s1)"
    and "getBitsetInData data (chunkToEntryNumber K chunk) = Inr False"
  shows "ReadEntry K G L chunk s =
           (Inr (empty_entry G, NoRedirect,
                 Some (errors_New ''entry doesn't exist to be able to be read'')), s1)"
  using assms by (simp add: ReadEntry_def chunkToBlockAndOffset_def)

theorem ReadEntry_deallocated_witness:
  "lease_Read store_agent (chunkToBlockID small 9) store1 = ((block1, 5, NoRedirect, None), store1)
   \<and> getBitsetInData block1 (chunkToEntryNumber small 9) = Inr False
   \<and> ReadEntry small pairs store_agent 9 store1 =
       (Inr ((0, 0), NoRedirect, Some (errors_New ''entry doesn't exist to be able to be read'')), store1)"
proof -
  have r: "lease_Read store_agent (chunkToBlockID small 9) store1 = ((block1, 5, NoRedirect, None), store1)"
    by (simp add: store_agent_def store_Read_def store1_def chunkToBlockID_def small_def drop_bit_eq_div)
  have b: "getBitsetInData block1 (chunkToEntryNumber small 9) = Inr False"
    by (simp add: getBitsetInData_def chunkToEntryNumber_def small_def block1_def)
  show ?thesis
    using ReadEntry_deallocated[OF r b, of pairs] r b by (simp add: pairs_def)
qed

section \<open>The Read adapters\<close>

text \<open>
  C9. The server-side adapter of \<open>Read\<close> either panics, which it does exactly when the
  wrapped \<open>Read\<close> failed with an empty message, or answers with the version the wrapped
  \<open>Read\<close> returned, an empty error string on success and the non-empty message of the
  error on failure. The client-side adapter, given a response with a non-empty error
  string, returns no data, the version of the response and an error with that message.
\<close>

theorem Read_adapters_keep_version:
  "(case server (rq_Chunk input) (rq_Offset input) (rq_Length input) (rq_Version input) of
      (data, version, err) \<Rightarrow>
        (case proxyChunkserverAsTwirp_Read server input of
           Inl p \<Rightarrow> p = panic ''expected nonempty error code'' \<and> (\<exists>e. err = Some e \<and> Error e = [])
         | Inr (response, rpc_err) \<Rightarrow>
             rpc_err = None \<and> rs_Version response = version \<and> rs_Data response = data
             \<and> (case err of
                   None \<Rightarrow> rs_Error response = []
                 | Some e \<Rightarrow> rs_Error response = Error e \<and> rs_Error response \<noteq> [])))
   \<and> (twirp \<lparr>rq_Chunk = chunk, rq_Offset = offset, rq_Length = len, rq_Version = minimum\<rparr>
          = (result, None) \<and> rs_Error result \<noteq> []
        \<longrightarrow> proxyTwirpAsChunkserver_Read twirp chunk offset len minimum
              = ([], rs_Version result, Some (errors_New (rs_Error result)))
            \<and> Error (errors_New (rs_Error result)) = rs_Error result)"
  by (auto simp: proxyChunkserverAsTwirp_Read_def proxyTwirpAsChunkserver_Read_def Let_def
           split: prod.splits option.splits sum.splits)

theorem Read_adapters_keep_version_witness:
  "proxyChunkserverAsTwirp_Read (\<lambda>c off n v. ([], 3, Some (errors_New ''stale replica'')))
       \<lparr>rq_Chunk = 7, rq_Offset = 0, rq_Length = 5, rq_Version = 4\<rparr>
     = Inr (\<lparr>rs_Data = [], rs_Version = 3, rs_Error = ''stale replica''\<rparr>, None)
   \<and> proxyTwirpAsChunkserver_Read
        (\<lambda>request. (\<lparr>rs_Data = [], rs_Version = 3, rs_Error = ''stale replica''\<rparr>, None)) 7 0 5 4
     = ([], 3, Some (errors_New ''stale replica''))"
  using Read_adapters_keep_version
    [of "\<lambda>c off n v. ([], 3, Some (errors_New ''stale replica''))"
        "\<lparr>rq_Chunk = 7, rq_Offset = 0, rq_Length = 5, rq_Version = 4\<rparr>"
        "\<lambda>request. (\<lparr>rs_Data = [], rs_Version = 3, rs_Error = ''stale replica''\<rparr>, None)"
        7 0 5 4 "\<lparr>rs_Data = [], rs_Version = 3, rs_Error = ''stale replica''\<rparr>"]
  by (simp add: proxyChunkserverAsTwirp_Read_def split: sum.splits)

section \<open>The retry loops\<close>

lemma UpdateEntry_attempt:
  assumes "lease_Read L (chunkToBlockID K chunk) s = ((data, version, owner, None), s1)"
    and "getBitsetInData data (chunkToEntryNumber K chunk) = Inr True"
    and "entry_slot K data (entryNumberToOffset K (chunkToEntryNumber K chunk)) = Inr slot"
    and "deserializeEntry G slot = (current, None)"
    and "Equals G current previous"
    and "serializeEntry K G current = (updated, None)"
  shows "UpdateEntry (Suc fuel) K G L chunk previous entry s =
     (case lease_Write L (chunkToBlockID K chunk) version
             (entryNumberToOffset K (chunkToEntryNumber K chunk)) updated s1 of
        ((v', owner', err'), s2) \<Rightarrow>
          (case err' of
             None \<Rightarrow> Some (Inr (NoRedirect, None), s2)
           | Some e \<Rightarrow>
              if version = 0 then Some (Inr (owner', Some e), s2)
              else UpdateEntry fuel K G L chunk previous entry s2))"
proof -
  have "length updated = EntrySize K"
    using assms(6) by (auto simp: serializeEntry_def Let_def split: sum.splits if_splits)
  then show ?thesis
    using assms by (simp add: chunkToBlockAndOffset_def split: prod.splits)
qed

lemma DeleteEntry_attempt:
  assumes "lease_Read L (chunkToBlockID K chunk) s = ((data, version, owner, None), s1)"
    and "getBitsetInData data (chunkToEntryNumber K chunk) = Inr True"
    and "entry_slot K data (entryNumberToOffset K (chunkToEntryNumber K chunk)) = Inr slot"
    and "deserializeEntry G slot = (current, None)"
    and "Equals G current previous"
    and "updateBitsetInData data (chunkToEntryNumber K chunk) False = Inr (updateOffset, newData)"
  shows "DeleteEntry (Suc fuel) K G L chunk previous s =
     (case lease_Write L (chunkToBlockID K chunk) version updateOffset newData s1 of
        ((v', owner', err'), s2) \<Rightarrow>
          (case err' of
             None \<Rightarrow> Some (Inr (NoRedirect, None), s2)
           | Some e \<Rightarrow>
              if version = 0 then Some (Inr (owner', Some e), s2)
              else DeleteEntry fuel K G L chunk previous s2))"
  using assms by (simp add: chunkToBlockAndOffset_def split: prod.splits)

lemma UpdateEntry_ignores_entry:
  "UpdateEntry fuel K G L chunk previous entry s = UpdateEntry fuel K G L chunk previous other s"
proof (induction fuel arbitrary: s)
  case 0
  show ?case by simp
next
  case (Suc fuel)
  show ?case
    by (simp add: Suc.IH[of _ ] cong: option.case_cong sum.case_cong if_cong)
qed


lemmas small_eval =
  small_def pairs_def block1_def chunkToBlockAndOffset_def chunkToBlockID_def
  chunkToEntryNumber_def entryNumberToOffset_def getBitsetInData_def updateBitsetInData_def
  entry_slot_def slice_def deserializeEntry_def serializeEntry_def pad_buf_eq drop_bit_eq_div

lemmas store_eval = store_agent_def store_Read_def store_Write_def store1_def write_range_def

text \<open>
  C1. On the store agent, with chunk 8 allocated and its slot holding \<open>(7, 9)\<close>,
  \<open>UpdateEntry\<close> of chunk 8 from \<open>(7, 9)\<close> to \<open>(8, 9)\<close> succeeds, and the block it leaves
  differs from the old one in the block version only: \<open>ReadEntry\<close> still returns
  \<open>(7, 9)\<close>. By \<open>UpdateEntry_ignores_entry\<close> the result never depends on the new entry.
\<close>

theorem UpdateEntry_keeps_old_entry:
  "UpdateEntry 1 small pairs store_agent 8 (7, 9) (8, 9) store1
     = Some (Inr (NoRedirect, None), store1\<lparr>held := [(1, block1, 6)]\<rparr>)
   \<and> ReadEntry small pairs store_agent 8 (store1\<lparr>held := [(1, block1, 6)]\<rparr>)
     = (Inr ((7, 9), NoRedirect, None), store1\<lparr>held := [(1, block1, 6)]\<rparr>)"
  by (simp add: ReadEntry_def small_eval store_eval)

lemma UpdateEntry_never_returns:
  "UpdateEntry fuel small pairs timeout_agent 8 (7, 9) (8, 9) () = None"
proof (induction fuel)
  case 0
  show ?case by simp
next
  case (Suc fuel)
  have "UpdateEntry (Suc fuel) small pairs timeout_agent 8 (7, 9) (8, 9) ()
          = UpdateEntry fuel small pairs timeout_agent 8 (7, 9) (8, 9) ()"
    by (simp add: small_eval timeout_agent_def)
  with Suc show ?case by simp
qed

lemma DeleteEntry_never_returns:
  "DeleteEntry fuel small pairs timeout_agent 8 (7, 9) () = None"
proof (induction fuel)
  case 0
  show ?case by simp
next
  case (Suc fuel)
  have "DeleteEntry (Suc fuel) small pairs timeout_agent 8 (7, 9) ()
          = DeleteEntry fuel small pairs timeout_agent 8 (7, 9) ()"
    by (simp add: small_eval timeout_agent_def)
  with Suc show ?case by simp
qed

text \<open>
  C2. With the block of chunk 8 read at version 5 and the write failing with a timeout,
  neither \<open>UpdateEntry\<close> nor \<open>DeleteEntry\<close> returns the error of the write: one iteration
  does not suffice, they go around the loop, and what they return in the end is the
  error of the second read. The source marks the way around the loop with the comment
  \<open>version mismatch; go around again\<close>, but takes it on every error of the write once
  the version read is not 0. By \<open>UpdateEntry_never_returns\<close> and
  \<open>DeleteEntry_never_returns\<close>, while the writes keep timing out the calls never return.
\<close>

theorem write_error_not_returned:
  "lease_Read replay_agent 1 timeout_script
     = ((block1, 5, NoRedirect, None), timeout_script\<lparr>reads := tl (reads timeout_script)\<rparr>)
   \<and> lease_Write replay_agent 1 5 1 [2, 7, 9, 0] (timeout_script\<lparr>reads := tl (reads timeout_script)\<rparr>)
     = ((0, NoRedirect, Some (errors_New ''timeout'')),
        timeout_script\<lparr>reads := tl (reads timeout_script), writes := []\<rparr>)
   \<and> UpdateEntry 1 small pairs replay_agent 8 (7, 9) (8, 9) timeout_script = None
   \<and> UpdateEntry 2 small pairs replay_agent 8 (7, 9) (8, 9) timeout_script
     = Some (Inr (''B'', Some (errors_New ''lease held by another server'')),
             timeout_script\<lparr>reads := [], writes := []\<rparr>)
   \<and> DeleteEntry 1 small pairs replay_agent 8 (7, 9) timeout_script = None
   \<and> DeleteEntry 2 small pairs replay_agent 8 (7, 9) timeout_script
     = Some (Inr (''B'', Some (errors_New ''lease held by another server'')),
             timeout_script\<lparr>reads := [], writes := []\<rparr>)"
  by code_simp

section \<open>Allocation\<close>

lemma NewEntry_step:
  assumes "findAnyFreeChunk (Suc fuel) K L s = Some (Inr (m, i, None), s1)"
    and "updateBitset K L m i True s1 = (r, s2)"
  shows "NewEntry (Suc fuel) K L s =
     (case r of
        Inl p \<Rightarrow> Some (Inl p, s2)
      | Inr (noclobber, err) \<Rightarrow>
         (case err of
            Some e \<Rightarrow> Some (Inr (0, Some e), s2)
          | None \<Rightarrow>
             if noclobber
             then (case entryAndBlockToChunkNum K m i of
                     Inl p \<Rightarrow> Some (Inl p, s2)
                   | Inr c \<Rightarrow> Some (Inr (c, None), s2))
             else NewEntry fuel K L s2))"
  using assms by (simp split: sum.splits prod.splits option.splits)

lemma updateBitset_read:
  assumes "lease_Read L m s1 = ((data, version, owner, None), s2)"
    and "slice data 0 (BitsetSize K) = Inr bitset"
    and "getBitsetInData bitset i = Inr existing"
  shows "updateBitset K L m i val s1 =
     (if existing = val then (Inr (False, None), s2)
      else (case updateBitsetInData bitset i val of
              Inl p \<Rightarrow> (Inl p, s2)
            | Inr (offset, newData) \<Rightarrow>
               (case lease_Write L m version offset newData s2 of
                  ((_, _, err'), s3) \<Rightarrow>
                   (case err' of
                      Some e \<Rightarrow> (Inr (False, Some e), s3)
                    | None \<Rightarrow> (Inr (True, None), s3)))))"
  using assms by (simp add: updateBitset_def)



text \<open>
  C4. Let \<open>findAnyFreeChunk\<close> have found block \<open>m\<close> and free index \<open>i\<close>, and let the read
  of \<open>updateBitset\<close> succeed. If it shows the bit clear and the conditional write that
  sets the bit succeeds, \<open>NewEntry\<close> returns what \<open>entryAndBlockToChunkNum\<close> makes of
  \<open>m\<close> and \<open>i\<close>: the chunk number \<open>(m << E) | i\<close> for a block other than 0 and an index
  below \<open>2^E\<close> (and its panic otherwise). If the read shows the bit already set,
  \<open>NewEntry\<close> returns nothing for this candidate and goes around its loop again.
\<close>

theorem NewEntry_composes_or_restarts:
  assumes "findAnyFreeChunk (Suc fuel) K L s = Some (Inr (m, i, None), s1)"
    and "lease_Read L m s1 = ((data, version, owner, None), s2)"
    and "slice data 0 (BitsetSize K) = Inr bitset"
  shows "(getBitsetInData bitset i = Inr False
          \<and> updateBitsetInData bitset i True = Inr (offset, newData)
          \<and> lease_Write L m version offset newData s2 = ((v, redirect, None), s3)
         \<longrightarrow> NewEntry (Suc fuel) K L s
               = (case entryAndBlockToChunkNum K m i of
                    Inl p \<Rightarrow> Some (Inl p, s3)
                  | Inr c \<Rightarrow> Some (Inr (c, None), s3))
             \<and> (m \<noteq> 0 \<and> i < push_bit (EntriesPerBlock K) 1
                 \<longrightarrow> NewEntry (Suc fuel) K L s
                       = Some (Inr (push_bit (EntriesPerBlock K) m OR i, None), s3)))
       \<and> (getBitsetInData bitset i = Inr True
         \<longrightarrow> NewEntry (Suc fuel) K L s = NewEntry fuel K L s2)"
proof (intro conjI impI)
  assume a: "getBitsetInData bitset i = Inr False
          \<and> updateBitsetInData bitset i True = Inr (offset, newData)
          \<and> lease_Write L m version offset newData s2 = ((v, redirect, None), s3)"
  then have "updateBitset K L m i True s1 = (Inr (True, None), s3)"
    using updateBitset_read[OF assms(2) assms(3), of i False True] by simp
  from NewEntry_step[OF assms(1) this]
  show r: "NewEntry (Suc fuel) K L s
             = (case entryAndBlockToChunkNum K m i of
                  Inl p \<Rightarrow> Some (Inl p, s3)
                | Inr c \<Rightarrow> Some (Inr (c, None), s3))"
    by simp
  assume "m \<noteq> 0 \<and> i < push_bit (EntriesPerBlock K) 1"
  then have "entryAndBlockToChunkNum K m i = Inr (push_bit (EntriesPerBlock K) m OR i)"
    by (simp add: entryAndBlockToChunkNum_def not_le[symmetric])
  with r show "NewEntry (Suc fuel) K L s
             = Some (Inr (push_bit (EntriesPerBlock K) m OR i, None), s3)"
    by simp
next
  assume "getBitsetInData bitset i = Inr True"
  then have "updateBitset K L m i True s1 = (Inr (False, None), s2)"
    using updateBitset_read[OF assms(2) assms(3), of i True True] by simp
  from NewEntry_step[OF assms(1) this]
  show "NewEntry (Suc fuel) K L s = NewEntry fuel K L s2" by simp
qed

lemmas replay_eval = replay_agent_def alloc_script_def findAnyFreeChunk_def
  findAnyLeasedFreeChunk_def findFreeChunkIn_def findAvailableCell_def findFirstZero_def
  findFirstZero_from.simps

lemma alloc_script_free:
  "findAnyFreeChunk (Suc 0) small replay_agent (alloc_script cell answer)
     = Some (Inr (1, 1, None), (alloc_script cell answer)\<lparr>reads := [(cell # tl block1, 5, NoRedirect, None)]\<rparr>)"
  by (simp add: replay_eval small_eval)

lemma alloc_script_read:
  "lease_Read replay_agent 1 ((alloc_script cell answer)\<lparr>reads := [(cell # tl block1, 5, NoRedirect, None)]\<rparr>)
     = ((cell # tl block1, 5, NoRedirect, None), (alloc_script cell answer)\<lparr>reads := []\<rparr>)"
  by (simp add: replay_eval)

lemma alloc_script_bitset: "slice (cell # tl block1) 0 (BitsetSize small) = Inr [cell]"
  by (simp add: small_eval)

lemma alloc_script_write:
  "lease_Write replay_agent 1 5 0 [3] ((alloc_script cell answer)\<lparr>reads := []\<rparr>)
     = (answer, (alloc_script cell answer)\<lparr>reads := [], writes := []\<rparr>)"
  by (simp add: replay_eval)

theorem NewEntry_composes_or_restarts_witness:
  "NewEntry (Suc 0) small replay_agent (alloc_script 1 (6, NoRedirect, None))
     = Some (Inr (9, None), (alloc_script 1 (6, NoRedirect, None))\<lparr>reads := [], writes := []\<rparr>)
   \<and> NewEntry (Suc 0) small replay_agent (alloc_script 3 (6, NoRedirect, None)) = None"
proof -
  have clear: "getBitsetInData [1] 1 = Inr False" and set: "getBitsetInData [3] 1 = Inr True"
    by (simp_all add: getBitsetInData_def)
  have upd: "updateBitsetInData [1] 1 True = Inr (0, [3])"
    by (simp add: updateBitsetInData_def)
  have m: "(1::MetadataID) \<noteq> 0 \<and> (1::uint) < push_bit (EntriesPerBlock small) 1"
    by (simp add: small_def)
  have c: "entryAndBlockToChunkNum small 1 1 = Inr 9"
    by (simp add: small_def entryAndBlockToChunkNum_def word_le_nat_alt)
  let ?ok = "(6, NoRedirect, None) :: Version \<times> ServerName \<times> error option"
  from NewEntry_composes_or_restarts
    [where offset = 0 and newData = "[3]" and v = 6 and redirect = NoRedirect
       and ?s3.0 = "(alloc_script 1 ?ok)\<lparr>reads := [], writes := []\<rparr>",
     OF alloc_script_free[of 1 ?ok] alloc_script_read[of 1 ?ok] alloc_script_bitset[of 1]]
    clear upd m alloc_script_write[of 1 ?ok]
  have "NewEntry (Suc 0) small replay_agent (alloc_script 1 ?ok)
     = Some (Inr (9, None), (alloc_script 1 ?ok)\<lparr>reads := [], writes := []\<rparr>)"
    by (simp del: NewEntry.simps add: c)
  moreover from NewEntry_composes_or_restarts
    [OF alloc_script_free[of 3 ?ok] alloc_script_read[of 3 ?ok] alloc_script_bitset[of 3]] set
  have "NewEntry (Suc 0) small replay_agent (alloc_script 3 ?ok) = None"
    by (simp del: NewEntry.simps(2))
  ultimately show ?thesis by simp
qed



section \<open>Deleting an entry\<close>

lemma logged_Read:
  "lease_Read L m s = ((block, version, owner, err), s') \<Longrightarrow>
   lease_Read (logged L) m (s, log)
     = ((block, version, owner, err), (s', log @ [Read_call m block version err]))"
  by (simp add: logged_def)

lemma logged_Write:
  "lease_Write L m version offset bytes s = ((version', owner, err), s') \<Longrightarrow>
   lease_Write (logged L) m version offset bytes (s, log)
     = ((version', owner, err), (s', log @ [Write_call m version offset bytes err]))"
  by (simp add: logged_def)

lemma DeleteEntry_trace:
  assumes "DeleteEntry fuel K G (logged L) chunk previous (s, l0)
             = Some (Inr (redirect, None), (s', log))"
  shows "\<exists>earlier block version offset bytes.
           log = l0 @ earlier @
                   [Read_call (chunkToBlockID K chunk) block version None,
                    Write_call (chunkToBlockID K chunk) version offset bytes None]
         \<and> filter write_succeeded earlier = []
         \<and> getBitsetInData block (chunkToEntryNumber K chunk) = Inr True
         \<and> updateBitsetInData block (chunkToEntryNumber K chunk) False = Inr (offset, bytes)
         \<and> redirect = NoRedirect"
  using assms
proof (induction fuel arbitrary: s l0)
  case 0
  then show ?case by simp
next
  case (Suc fuel)
  let ?m = "chunkToBlockID K chunk" and ?i = "chunkToEntryNumber K chunk"
  obtain block version owner err s1 where R: "lease_Read L ?m s = ((block, version, owner, err), s1)"
    by (metis prod_cases4 surj_pair)
  note R' = logged_Read[OF R, of l0]
  let ?l1 = "l0 @ [Read_call ?m block version err]"
  from Suc.prems R' have err: "err = None"
    by (auto simp: chunkToBlockAndOffset_def split: option.splits)
  from Suc.prems R' err have bit: "getBitsetInData block ?i = Inr True"
    by (auto simp: chunkToBlockAndOffset_def split: sum.splits if_splits)
  from Suc.prems R' err bit obtain offset bytes
    where upd: "updateBitsetInData block ?i False = Inr (offset, bytes)"
    by (auto simp: chunkToBlockAndOffset_def split: sum.splits if_splits prod.splits option.splits)
  obtain version' owner' err' s2
    where W: "lease_Write L ?m version offset bytes s1 = ((version', owner', err'), s2)"
    by (metis prod_cases3 surj_pair)
  note W' = logged_Write[OF W, of ?l1]
  let ?l2 = "?l1 @ [Write_call ?m version offset bytes err']"
  show ?case
  proof (cases err')
    case None
    with Suc.prems R' err bit upd W' have "log = ?l2" "redirect = NoRedirect"
      by (auto simp: chunkToBlockAndOffset_def split: sum.splits if_splits prod.splits option.splits)
    then have "log = l0 @ [] @ [Read_call ?m block version None, Write_call ?m version offset bytes None]"
      using err None by simp
    with bit upd \<open>redirect = NoRedirect\<close> show ?thesis
      by (metis filter.simps(1))
  next
    case (Some e)
    with Suc.prems R' err bit upd W'
    have rec: "DeleteEntry fuel K G (logged L) chunk previous (s2, ?l2)
                 = Some (Inr (redirect, None), (s', log))"
      by (auto simp: chunkToBlockAndOffset_def split: sum.splits if_splits prod.splits option.splits)
    from Suc.IH[OF rec] obtain earlier block' version'' offset' bytes' where
      e: "log = ?l2 @ earlier @
                   [Read_call ?m block' version'' None, Write_call ?m version'' offset' bytes' None]"
         "filter write_succeeded earlier = []"
         "getBitsetInData block' ?i = Inr True"
         "updateBitsetInData block' ?i False = Inr (offset', bytes')"
         "redirect = NoRedirect"
      by blast
    let ?earlier = "[Read_call ?m block version err, Write_call ?m version offset bytes err'] @ earlier"
    have "log = l0 @ ?earlier @
                   [Read_call ?m block' version'' None, Write_call ?m version'' offset' bytes' None]"
      using e(1) by simp
    moreover have "filter write_succeeded ?earlier = []"
      using e(2) Some by simp
    ultimately show ?thesis using e(3-5) by blast
  qed
qed


lemma unat_mod8: "unat (i mod 8 :: uint) < 8"
  by (simp add: unat_mod_distrib)

lemma bit_cleared:
  fixes c :: byte
  assumes "k < 8"
  shows "bit (c AND (push_bit k 1 XOR 0xFF)) b \<longleftrightarrow> bit c b \<and> b \<noteq> k"
  using assms byte_full[of b]
  by (auto simp add: bit_simps simp del: bit_numeral_iff dest: bit_imp_le_length)

lemma entry_number_small: "unat (chunkToEntryNumber K chunk) < 2 ^ EntriesPerBlock K"
  unfolding chunkToEntryNumber_def
  by (metis low_bits_mask take_bit_eq_mask take_bit_nat_less_exp unsigned_take_bit_eq)

lemma ucast_small:
  assumes "unat (x::uint) < 2 ^ 32"
  shows "unat (ucast x :: uint32) = unat x"
  using assms by (simp add: unsigned_ucast_eq take_bit_nat_eq_self)

lemma write_one_byte:
  assumes "k < length block"
  shows "write_range block k [c] = block[k := c]"
  using assms by (simp add: write_range_def upd_conv_take_nth_drop)

lemma DeleteEntry_attempts:
  assumes "DeleteEntry fuel K G (logged L) chunk previous (s, l0)
             = Some (Inr (redirect, None), (s', log))"
  shows "\<exists>run. log = l0 @ run
           \<and> clearing_attempts (chunkToBlockID K chunk) (chunkToEntryNumber K chunk) run"
  using assms
proof (induction fuel arbitrary: s l0)
  case 0
  then show ?case by simp
next
  case (Suc fuel)
  let ?m = "chunkToBlockID K chunk" and ?i = "chunkToEntryNumber K chunk"
  obtain block version owner err s1 where R: "lease_Read L ?m s = ((block, version, owner, err), s1)"
    by (metis prod_cases4 surj_pair)
  note R' = logged_Read[OF R, of l0]
  let ?l1 = "l0 @ [Read_call ?m block version err]"
  from Suc.prems R' have err: "err = None"
    by (auto simp: chunkToBlockAndOffset_def split: option.splits)
  from Suc.prems R' err have bit: "getBitsetInData block ?i = Inr True"
    by (auto simp: chunkToBlockAndOffset_def split: sum.splits if_splits)
  have k: "unat (?i div 8) < length block"
    using bit by (auto simp: getBitsetInData_def split: if_splits)
  define cell where "cell = block ! unat (?i div 8) AND (push_bit (unat (?i mod 8)) 1 XOR 0xFF)"
  have upd: "updateBitsetInData block ?i False = Inr (ucast (?i div 8), [cell])"
    using k by (simp add: updateBitsetInData_def cell_def)
  obtain version' owner' err' s2
    where W: "lease_Write L ?m version (ucast (?i div 8)) [cell] s1 = ((version', owner', err'), s2)"
    by (metis prod_cases3 surj_pair)
  note W' = logged_Write[OF W, of ?l1]
  let ?pair = "[Read_call ?m block version None, Write_call ?m version (ucast (?i div 8)) [cell] err']"
  show ?case
  proof (cases err')
    case None
    with Suc.prems R' err bit upd W' have "log = l0 @ ?pair"
      by (auto simp: chunkToBlockAndOffset_def split: sum.splits if_splits prod.splits option.splits)
    moreover have "clearing_attempts ?m ?i ?pair"
      using None k by (simp add: cell_def)
    ultimately show ?thesis by blast
  next
    case (Some e)
    with Suc.prems R' err bit upd W'
    have rec: "DeleteEntry fuel K G (logged L) chunk previous
                 (s2, l0 @ ?pair) = Some (Inr (redirect, None), (s', log))"
      by (auto simp: chunkToBlockAndOffset_def split: sum.splits if_splits prod.splits option.splits)
    from Suc.IH[OF rec] obtain run where
      run: "log = (l0 @ ?pair) @ run" "clearing_attempts ?m ?i run"
      by blast
    have ne: "run \<noteq> []" using run(2) by auto
    have "clearing_attempts ?m ?i (?pair @ run)"
      using run(2) ne Some k by (simp add: cell_def)
    moreover have "log = l0 @ (?pair @ run)" using run(1) by simp
    ultimately show ?thesis by blast
  qed
qed

lemmas retry_log_eval = logged_def replay_agent_def retry_script_def small_eval

text \<open>
  C6, as stated, fails: a \<open>DeleteEntry\<close> that loses its first write to a concurrent
  writer and succeeds on the second iteration has issued two sub-range writes.
\<close>

theorem DeleteEntry_retried_writes_twice:
  "DeleteEntry (Suc (Suc 0)) small pairs (logged replay_agent) 8 (7, 9) (retry_script, [])
     = Some (Inr (NoRedirect, None),
             (retry_script\<lparr>reads := [], writes := []\<rparr>,
              [Read_call 1 block1 5 None,
               Write_call 1 5 0 [0] (Some (errors_New ''version mismatch'')),
               Read_call 1 block1 6 None,
               Write_call 1 6 0 [0] None]))
   \<and> length (filter is_write
         [Read_call 1 block1 5 None,
          Write_call 1 5 0 [0] (Some (errors_New ''version mismatch'')),
          Read_call 1 block1 6 None,
          Write_call 1 6 0 [0] None]) = 2"
  by (simp add: retry_log_eval)

text \<open>
  C6, amended. A \<open>DeleteEntry\<close> that returns no error has issued one sub-range write in
  each iteration of its loop, after a read that succeeded, and nothing else: every write
  is one byte at offset \<open>entryIndex / 8\<close>, the cell just read with bit \<open>entryIndex % 8\<close>
  cleared and every other bit as it was; all writes but the last failed and the last
  succeeded, so exactly one took effect. As a sub-range write each of them replaces
  that cell only, so every other byte of the block, the entry slots included, is as
  before; the cell lies inside the bitset when the bitset has a bit for each entry.
\<close>

theorem DeleteEntry_clears_one_bit:
  assumes "DeleteEntry fuel K G (logged L) chunk previous (s, [])
             = Some (Inr (redirect, None), (s', log))"
  shows "clearing_attempts (chunkToBlockID K chunk) (chunkToEntryNumber K chunk) log
       \<and> length (filter write_succeeded log) = 1
       \<and> (\<exists>earlier block version cell.
             log = earlier @
                     [Read_call (chunkToBlockID K chunk) block version None,
                      Write_call (chunkToBlockID K chunk) version
                        (ucast (chunkToEntryNumber K chunk div 8)) [cell] None]
           \<and> filter write_succeeded earlier = []
           \<and> unat (chunkToEntryNumber K chunk div 8) < length block
           \<and> cell = block ! unat (chunkToEntryNumber K chunk div 8)
                      AND (push_bit (unat (chunkToEntryNumber K chunk mod 8)) 1 XOR 0xFF))
       \<and> (\<forall>c b. bit (c AND (push_bit (unat (chunkToEntryNumber K chunk mod 8)) 1 XOR (0xFF::byte))) b
                 \<longleftrightarrow> bit c b \<and> b \<noteq> unat (chunkToEntryNumber K chunk mod 8))
       \<and> (\<forall>block c. unat (chunkToEntryNumber K chunk div 8) < length block
                    \<and> length block \<le> 2 ^ 32 \<longrightarrow>
              write_range block (unat (ucast (chunkToEntryNumber K chunk div 8) :: uint32)) [c]
                = block[unat (chunkToEntryNumber K chunk div 8) := c])
       \<and> (2 ^ EntriesPerBlock K \<le> 8 * BitsetSize K \<longrightarrow>
            unat (chunkToEntryNumber K chunk div 8) < BitsetSize K)
       \<and> redirect = NoRedirect"
proof -
  let ?m = "chunkToBlockID K chunk" and ?i = "chunkToEntryNumber K chunk"
  let ?k = "unat (?i div 8)"
  from DeleteEntry_attempts[OF assms]
  have att: "clearing_attempts ?m ?i log" by simp
  from DeleteEntry_trace[OF assms] obtain earlier block version offset bytes where
    t: "log = earlier @ [Read_call ?m block version None, Write_call ?m version offset bytes None]"
       "filter write_succeeded earlier = []"
       "getBitsetInData block ?i = Inr True"
       "updateBitsetInData block ?i False = Inr (offset, bytes)"
       "redirect = NoRedirect"
    by auto
  define cell where "cell = block ! ?k AND (push_bit (unat (?i mod 8)) 1 XOR 0xFF)"
  have k: "?k < length block"
    using t(3) by (auto simp: getBitsetInData_def split: if_splits)
  have ob: "offset = ucast (?i div 8)" "bytes = [cell]"
    using t(4) k by (auto simp: updateBitsetInData_def cell_def)
  have one: "length (filter write_succeeded log) = 1"
    using t(1,2) by simp
  have last: "\<exists>earlier block version cell.
             log = earlier @
                     [Read_call ?m block version None,
                      Write_call ?m version (ucast (?i div 8)) [cell] None]
           \<and> filter write_succeeded earlier = []
           \<and> ?k < length block
           \<and> cell = block ! ?k AND (push_bit (unat (?i mod 8)) 1 XOR 0xFF)"
    using t(1,2) ob k cell_def by blast
  have bits: "\<forall>c b. bit (c AND (push_bit (unat (?i mod 8)) 1 XOR (0xFF::byte))) b
                 \<longleftrightarrow> bit c b \<and> b \<noteq> unat (?i mod 8)"
    using bit_cleared[OF unat_mod8] by blast
  have frame: "\<forall>block c. ?k < length block \<and> length block \<le> 2 ^ 32 \<longrightarrow>
      write_range block (unat (ucast (?i div 8) :: uint32)) [c] = block[?k := c]"
  proof (intro allI impI)
    fix block :: "byte list" and c :: byte
    assume a: "?k < length block \<and> length block \<le> 2 ^ 32"
    then have "?k < 2 ^ 32" by simp
    then have "unat (ucast (?i div 8) :: uint32) = ?k" by (rule ucast_small)
    then show "write_range block (unat (ucast (?i div 8) :: uint32)) [c] = block[?k := c]"
      using write_one_byte[of ?k block c] a by simp
  qed
  have inside: "2 ^ EntriesPerBlock K \<le> 8 * BitsetSize K \<longrightarrow> ?k < BitsetSize K"
  proof
    assume "2 ^ EntriesPerBlock K \<le> 8 * BitsetSize K"
    with entry_number_small[of K chunk] have "unat ?i < 8 * BitsetSize K" by simp
    then show "?k < BitsetSize K" by (simp add: unat_div_distrib)
  qed
  from att one last bits frame inside t(5) show ?thesis by (intro conjI)
qed

theorem DeleteEntry_clears_one_bit_witness:
  "DeleteEntry (Suc (Suc 0)) small pairs (logged replay_agent) 8 (7, 9) (retry_script, [])
     = Some (Inr (NoRedirect, None),
             (retry_script\<lparr>reads := [], writes := []\<rparr>,
              [Read_call 1 block1 5 None,
               Write_call 1 5 0 [0] (Some (errors_New ''version mismatch'')),
               Read_call 1 block1 6 None,
               Write_call 1 6 0 [0] None]))
   \<and> clearing_attempts (chunkToBlockID small 8) (chunkToEntryNumber small 8)
         [Read_call 1 block1 5 None,
          Write_call 1 5 0 [0] (Some (errors_New ''version mismatch'')),
          Read_call 1 block1 6 None,
          Write_call 1 6 0 [0] None]
   \<and> length (filter write_succeeded
         [Read_call 1 block1 5 None,
          Write_call 1 5 0 [0] (Some (errors_New ''version mismatch'')),
          Read_call 1 block1 6 None,
          Write_call 1 6 0 [0] None]) = 1
   \<and> unat (chunkToEntryNumber small 8 div 8) < length block1
   \<and> length block1 \<le> 2 ^ 32
   \<and> write_range block1 (unat (ucast (chunkToEntryNumber small 8 div 8) :: uint32)) [0]
       = block1[unat (chunkToEntryNumber small 8 div 8) := 0]
   \<and> 2 ^ EntriesPerBlock small \<le> 8 * BitsetSize small
   \<and> unat (chunkToEntryNumber small 8 div 8) < BitsetSize small"
proof -
  let ?log = "[Read_call 1 block1 5 None,
               Write_call 1 5 0 [0] (Some (errors_New ''version mismatch'')),
               Read_call 1 block1 6 None,
               Write_call 1 6 0 [0] None]"
  have ev: "DeleteEntry (Suc (Suc 0)) small pairs (logged replay_agent) 8 (7, 9) (retry_script, [])
     = Some (Inr (NoRedirect, None), (retry_script\<lparr>reads := [], writes := []\<rparr>, ?log))"
    by (simp add: retry_log_eval)
  note T = DeleteEntry_clears_one_bit[OF ev]
  have k: "unat (chunkToEntryNumber small 8 div 8) < length block1" "length block1 \<le> 2 ^ 32"
    by (simp_all add: small_eval)
  have g: "2 ^ EntriesPerBlock small \<le> 8 * BitsetSize small"
    by (simp add: small_def)
  from T have "clearing_attempts (chunkToBlockID small 8) (chunkToEntryNumber small 8) ?log"
    by (rule conjunct1)
  moreover from T have "length (filter write_succeeded ?log) = 1"
    by blast
  moreover from T k have "write_range block1 (unat (ucast (chunkToEntryNumber small 8 div 8) :: uint32)) [0]
       = block1[unat (chunkToEntryNumber small 8 div 8) := 0]"
    by blast
  moreover from T g have "unat (chunkToEntryNumber small 8 div 8) < BitsetSize small"
    by blast
  ultimately show ?thesis using ev k g by (intro conjI)
qed

end
